theory Spec2Isabelle
  imports Complex_Main
begin

unbundle bit_operations_syntax

section \<open>Common Python values\<close>

text \<open>
  The exceptions that the two modules can raise and that the embedding keeps as values.
\<close>

datatype py_error = KeyError | ValueError | IndexError | AttributeError

text \<open>
  \<open>str(n)\<close> for a Python integer, as the f-strings of both modules format ports:
  decimal digits, most significant first, with a leading minus sign below zero.
\<close>

definition digit_char :: "nat \<Rightarrow> char" where
  "digit_char d = ''0123456789'' ! d"

fun str_nat :: "nat \<Rightarrow> string" where
  "str_nat n = (if n < 10 then [digit_char n] else str_nat (n div 10) @ [digit_char (n mod 10)])"

declare str_nat.simps [simp del]

definition str_int :: "int \<Rightarrow> string" where
  "str_int i = (if i < 0 then CHR ''-'' # str_nat (nat (- i)) else str_nat (nat i))"

definition startswith :: "string \<Rightarrow> string \<Rightarrow> bool" where
  "startswith s p = (take (length p) s = p)"

section \<open>networkws.py: the connection tracker\<close>

subsection \<open>Address classification\<close>

text \<open>
  \<open>ipaddress.ip_address\<close> belongs to the Python standard library, not to the repository.
  The tracker reads three things of the object it returns: \<open>is_private\<close>,
  \<open>is_loopback\<close> and \<open>str(ip_obj)\<close>. The library is a parameter \<open>ip_address\<close> of the
  embedding; \<open>None\<close> stands for the \<open>ValueError\<close> it raises on a malformed address.
\<close>

record ip_obj =
  is_private :: bool
  is_loopback :: bool
  str :: string

type_synonym ipaddress = "string \<Rightarrow> ip_obj option"

definition is_local_address :: "ipaddress \<Rightarrow> string \<Rightarrow> bool" where
  "is_local_address ip_address ip =
     (case ip_address ip of
        None \<Rightarrow> False
      | Some ip_obj \<Rightarrow>
          is_private ip_obj \<or> is_loopback ip_obj \<or> str ip_obj = ''0.0.0.0''
          \<or> startswith (str ip_obj) ''169.254'')"

subsection \<open>Raw connections and records\<close>

datatype sock_type = SOCK_STREAM | SOCK_DGRAM

record addr =
  ip :: string
  port :: int

text \<open>
  What the process lookup \<open>psutil.Process(conn.pid).name()\<close> can do: return a name,
  raise \<open>NoSuchProcess\<close> or \<open>AccessDenied\<close> (handled by the inner \<open>except\<close>), or raise
  anything else (handled by the outer \<open>except Exception\<close>).
\<close>

datatype proc_lookup = Proc_name string | Proc_unavailable | Proc_error

text \<open>
  One element of \<open>psutil.net_connections(kind='inet')\<close> together with what the
  environment answers while the loop body handles it: the process lookup, the string of
  \<open>datetime.now().isoformat()\<close> and the string of \<open>uuid.uuid4()\<close>. An address that
  psutil reports as the empty tuple is \<open>None\<close>.
\<close>

record sconn =
  laddr :: "addr option"
  raddr :: "addr option"
  stype :: sock_type
  status :: string
  process :: proc_lookup
  now_iso :: string
  uuid4 :: string

text \<open>
  The dictionary \<open>connection_data\<close>. The keys \<open>id.orig_h\<close>, \<open>id.orig_p\<close>, \<open>id.resp_h\<close>,
  \<open>id.resp_p\<close> and \<open>detailed-label\<close> are written with underscores.
\<close>

record connection_data =
  ts :: string
  uid :: string
  id_orig_h :: string
  id_orig_p :: int
  id_resp_h :: string
  id_resp_p :: int
  proto :: string
  service :: string
  duration :: real
  orig_bytes :: int
  resp_bytes :: int
  conn_state :: string
  local_orig :: bool
  local_resp :: bool
  missed_bytes :: int
  history :: string
  orig_pkts :: int
  orig_ip_bytes :: int
  resp_pkts :: int
  resp_ip_bytes :: int
  tunnel_parents :: "string list"
  label :: string
  detailed_label :: string

text \<open>
  Times are real numbers. \<open>round(duration, 3)\<close> is rounding to the nearest multiple
  of one thousandth; an exact tie goes up here, where Python rounds it to even.
\<close>

definition round3 :: "real \<Rightarrow> real" where
  "round3 d = real_of_int (round (d * 1000)) / 1000"

record tracker =
  connections :: "string \<rightharpoonup> connection_data"
  start_times :: "string \<rightharpoonup> real"

definition ConnectionTracker_init :: tracker where
  "ConnectionTracker_init = \<lparr>connections = Map.empty, start_times = Map.empty\<rparr>"

text \<open>The f-string that builds \<open>conn_id\<close>.\<close>

definition make_conn_id :: "addr \<Rightarrow> addr option \<Rightarrow> string" where
  "make_conn_id la ra =
     ip la @ '':'' @ str_int (port la) @ ''-''
       @ (case ra of None \<Rightarrow> ''None'' | Some r \<Rightarrow> ip r) @ '':''
       @ (case ra of None \<Rightarrow> ''None'' | Some r \<Rightarrow> str_int (port r))"

definition conn_id_of :: "sconn \<Rightarrow> string option" where
  "conn_id_of conn = map_option (\<lambda>la. make_conn_id la (raddr conn)) (laddr conn)"

subsection \<open>The retention test\<close>

text \<open>
  The source writes
  \<^verbatim>\<open>if(self.is_local_address(conn.laddr.ip)==False & conn.laddr.port!=3389):\<close>
  In Python \<open>&\<close> binds tighter than \<open>==\<close> and \<open>!=\<close>, and comparisons chain, so the
  condition is \<open>a == (False & p) and (False & p) != 3389\<close> with \<open>a\<close> the classification
  and \<open>p\<close> the port. A Boolean is the integer 0 or 1 under \<open>&\<close> and under \<open>==\<close>.
\<close>

definition py_bool :: "bool \<Rightarrow> int" where
  "py_bool b = (if b then 1 else 0)"

definition retention_test :: "bool \<Rightarrow> int \<Rightarrow> bool" where
  "retention_test a p = (py_bool a = (py_bool False AND p) \<and> (py_bool False AND p) \<noteq> 3389)"

subsection \<open>One polling cycle\<close>

record loop_state =
  current_connections :: "string set"
  connections_data :: "connection_data list"
  self :: tracker

text \<open>
  The body of the \<open>for conn in psutil.net_connections(kind='inet')\<close> loop. Every
  exception of the body is caught by \<open>except Exception\<close>, which prints and continues:
  the state keeps the writes made before the exception.
  \<^item> \<open>conn.laddr.ip\<close> on an empty address raises before anything is written;
  \<^item> a process lookup that raises something else than \<open>NoSuchProcess\<close> or
    \<open>AccessDenied\<close>, and \<open>conn.status[0]\<close> on an empty status, raise after
    \<open>current_connections\<close> and \<open>start_times\<close> are written.
  The start time read back for the duration is the one just stored when the identity
  was new.
\<close>

definition process_connection :: "ipaddress \<Rightarrow> real \<Rightarrow> loop_state \<Rightarrow> sconn \<Rightarrow> loop_state" where
  "process_connection ip_address current_time st conn =
     (case laddr conn of
        None \<Rightarrow> st
      | Some la \<Rightarrow>
          let conn_id = make_conn_id la (raddr conn);
              cur = insert conn_id (current_connections st);
              start = (case start_times (self st) conn_id of
                         None \<Rightarrow> current_time | Some t \<Rightarrow> t);
              tr1 = (self st)\<lparr>start_times := (start_times (self st))(conn_id \<mapsto> start)\<rparr>;
              st1 = st\<lparr>current_connections := cur, self := tr1\<rparr>
          in
          (case process conn of
             Proc_error \<Rightarrow> st1
           | lookup \<Rightarrow>
               let process_name = (case lookup of Proc_name n \<Rightarrow> n | _ \<Rightarrow> ''unknown'');
                   duration = current_time - start
               in
               (case status conn of
                  [] \<Rightarrow> st1
                | c # _ \<Rightarrow>
                    let history = (case connections tr1 conn_id of
                                     Some old \<Rightarrow> history old @ [c]
                                   | None \<Rightarrow> [c]);
                        connection_data = \<lparr>
                          ts = now_iso conn,
                          uid = uuid4 conn,
                          id_orig_h = ip la,
                          id_orig_p = port la,
                          id_resp_h = (case raddr conn of Some r \<Rightarrow> ip r | None \<Rightarrow> ''0.0.0.0''),
                          id_resp_p = (case raddr conn of Some r \<Rightarrow> port r | None \<Rightarrow> 0),
                          proto = (if stype conn = SOCK_STREAM then ''tcp'' else ''udp''),
                          service = process_name,
                          duration = round3 duration,
                          orig_bytes = 0,
                          resp_bytes = 0,
                          conn_state = status conn,
                          local_orig = is_local_address ip_address (ip la),
                          local_resp = is_local_address ip_address
                            (case raddr conn of Some r \<Rightarrow> ip r | None \<Rightarrow> ''0.0.0.0''),
                          missed_bytes = 0,
                          history = take 20 history,
                          orig_pkts = 0,
                          orig_ip_bytes = 0,
                          resp_pkts = 0,
                          resp_ip_bytes = 0,
                          tunnel_parents = [],
                          label = ''Normal'',
                          detailed_label = ''Process: '' @ process_name @ '', State: '' @ status conn
                        \<rparr>
                    in
                    if retention_test (is_local_address ip_address (ip la)) (port la)
                    then st1\<lparr>connections_data := connections_data st1 @ [connection_data],
                             self := tr1\<lparr>connections := (connections tr1)(conn_id \<mapsto> connection_data)\<rparr>\<rparr>
                    else st1)))"

text \<open>
  The loop \<open>for conn_id in list(self.start_times.keys())\<close>: an identity with a start
  time that is not in \<open>current_connections\<close> loses its start time and, when it has one,
  its stored record.
\<close>

definition clean_up :: "string set \<Rightarrow> tracker \<Rightarrow> tracker" where
  "clean_up cur tr =
     \<lparr>connections = (\<lambda>k. if start_times tr k \<noteq> None \<and> k \<notin> cur then None else connections tr k),
      start_times = (\<lambda>k. if start_times tr k \<noteq> None \<and> k \<notin> cur then None else start_times tr k)\<rparr>"

definition poll_loop :: "ipaddress \<Rightarrow> real \<Rightarrow> sconn list \<Rightarrow> tracker \<Rightarrow> loop_state" where
  "poll_loop ip_address current_time conns tr =
     foldl (process_connection ip_address current_time)
       \<lparr>current_connections = {}, connections_data = [], self = tr\<rparr> conns"

definition get_detailed_connections ::
  "ipaddress \<Rightarrow> real \<Rightarrow> sconn list \<Rightarrow> tracker \<Rightarrow> connection_data list \<times> tracker" where
  "get_detailed_connections ip_address current_time conns tr =
     (let st = poll_loop ip_address current_time conns tr
      in (connections_data st, clean_up (current_connections st) (self st)))"

text \<open>
  \<open>handler\<close> creates one tracker and polls it forever. \<open>handler_cycles\<close> runs the
  cycles of a finite prefix of that loop, each with its clock reading and its sample,
  and returns the connection lists sent so far with the tracker.
\<close>

fun handler_cycles ::
  "ipaddress \<Rightarrow> (real \<times> sconn list) list \<Rightarrow> tracker \<Rightarrow> connection_data list list \<times> tracker" where
  "handler_cycles ip_address [] tr = ([], tr)"
| "handler_cycles ip_address ((current_time, conns) # rest) tr =
     (let (out, tr') = get_detailed_connections ip_address current_time conns tr;
          (outs, tr'') = handler_cycles ip_address rest tr'
      in (out # outs, tr''))"


text \<open>The cap on the history, as a property of a state of the loop.\<close>

definition history_capped :: "loop_state \<Rightarrow> bool" where
  "history_capped st \<longleftrightarrow>
     (\<forall>r \<in> set (connections_data st). length (history r) \<le> 20)
   \<and> (\<forall>k r. connections (self st) k = Some r \<longrightarrow> length (history r) \<le> 20)"

section \<open>service.py: scoring, ranking and fan-out\<close>

subsection \<open>The anomaly score\<close>

text \<open>
  One row of the feature frame that \<open>preprocess_data\<close> returns. The encoders and the
  scaler that fill it are scikit-learn's; the scorer only reads the columns, which are
  real numbers here. The columns \<open>duration\<close>, \<open>orig_pkts\<close> and \<open>orig_bytes\<close> carry the
  prefix \<open>feat\<close> (the tracker's record has fields of the same names), and the one-hot
  columns \<open>service_0\<close>, \<open>service_1\<close>, ... are the list \<open>service_cols\<close>.
\<close>

record feature_row =
  EventType :: real
  category :: real
  subcategory :: real
  feat_duration :: real
  feat_orig_pkts :: real
  feat_orig_bytes :: real
  service_cols :: "real list"

definition raw_score :: "feature_row \<Rightarrow> real" where
  "raw_score f =
     EventType f * (- 0.015) + category f * 0.012 + subcategory f * 0.008
     + feat_duration f * 0.007 + feat_orig_pkts f * 0.005 + feat_orig_bytes f * 0.005
     + sum_list (service_cols f) * 0.003"

text \<open>
  \<open>score = (score - score.min()) / (score.max() - score.min() + 1e-10)\<close>, element by
  element. On a frame without rows the series is empty and so is the result. The
  source computes in 64-bit floating point; \<open>raw_score\<close> and this function are the
  same expressions over the real numbers, without rounding, overflow or NaN. They give
  the payload its scores; what is proved of the payload below holds for any scores.
\<close>

definition calculate_anomaly_score :: "feature_row list \<Rightarrow> real list" where
  "calculate_anomaly_score features =
     (let score = map raw_score features
      in if score = [] then []
         else map (\<lambda>x. (x - Min (set score)) / (Max (set score) - Min (set score) + 1 / 10 ^ 10))
                score)"

subsection \<open>Results, labels and the ranked payload\<close>

text \<open>
  A row of the frame \<open>results\<close>. Its columns \<open>service\<close> and \<open>label\<close> carry the prefix
  \<open>res\<close>.
\<close>

record result_row =
  timestamp :: string
  source :: string
  destination :: string
  res_service :: string
  anomaly_score :: real
  res_label :: string

definition score_label :: "real \<Rightarrow> string" where
  "score_label x = (if x \<ge> 0.8 then ''Malicious'' else ''Benign'')"

text \<open>
  The frame built from the decoded connections and the score series, with the label
  column applied. The \<open>DataFrame\<close> constructor raises \<open>ValueError\<close> when the lists and
  the series differ in length.
\<close>

definition make_results :: "connection_data list \<Rightarrow> real list \<Rightarrow> py_error + result_row list" where
  "make_results conns scores =
     (if length scores \<noteq> length conns then Inl ValueError
      else Inr (map (\<lambda>(conn, x).
                  \<lparr>timestamp = ts conn,
                   source = id_orig_h conn @ '':'' @ str_int (id_orig_p conn),
                   destination = id_resp_h conn @ '':'' @ str_int (id_resp_p conn),
                   res_service = service conn,
                   anomaly_score = x,
                   res_label = score_label x\<rparr>) (zip conns scores)))"

text \<open>
  \<open>DataFrame.nlargest(n, column)\<close> is pandas', with its default \<open>keep='first'\<close>: the
  \<open>n\<close> rows with the largest values of the column in descending order, earlier rows
  first among equal values. \<open>nlargest_index\<close> gives the positions of the selected rows
  in the frame.
\<close>

definition nlargest_index :: "nat \<Rightarrow> real list \<Rightarrow> nat list" where
  "nlargest_index n xs = take n (sort_key (\<lambda>i. - (xs ! i)) [0..<length xs])"

definition nlargest :: "nat \<Rightarrow> ('a \<Rightarrow> real) \<Rightarrow> 'a list \<Rightarrow> 'a list" where
  "nlargest n column frame = map (\<lambda>i. frame ! i) (nlargest_index n (map column frame))"

record summary =
  avg_score :: real
  max_score :: real
  malicious_count :: nat
  benign_count :: nat
  total_connections :: nat

record vis_data =
  vis_timestamp :: string
  vis_summary :: summary
  top_anomalies :: "result_row list"

definition make_vis_data :: "string \<Rightarrow> real list \<Rightarrow> result_row list \<Rightarrow> vis_data" where
  "make_vis_data now scores results =
     \<lparr>vis_timestamp = now,
      vis_summary =
        \<lparr>avg_score = sum_list scores / real (length scores),
         max_score = Max (set scores),
         malicious_count = length (filter (\<lambda>r. res_label r = ''Malicious'') results),
         benign_count = length (filter (\<lambda>r. res_label r = ''Benign'') results),
         total_connections = length scores\<rparr>,
      top_anomalies = nlargest 10 anomaly_score results\<rparr>"

text \<open>
  What one pass of the inner loop of \<open>process_network_data\<close> computes from the decoded
  \<open>connections\<close> list: the payload it broadcasts, or \<open>None\<close> when it broadcasts
  nothing (an empty list, no features, or an exception that the loop catches and
  prints). \<open>preprocess_data\<close> is a parameter.
\<close>

definition process_batch ::
  "(connection_data list \<Rightarrow> feature_row list option) \<Rightarrow> string \<Rightarrow> connection_data list
     \<Rightarrow> vis_data option" where
  "process_batch preprocess_data now conns =
     (if conns = [] then None
      else (case preprocess_data conns of
              None \<Rightarrow> None
            | Some features \<Rightarrow>
                (let scores = calculate_anomaly_score features
                 in (case make_results conns scores of
                       Inl e \<Rightarrow> None
                     | Inr results \<Rightarrow> Some (make_vis_data now scores results)))))"

subsection \<open>Subscribers\<close>

record 'ws WebSocketServer =
  connected_clients :: "'ws set"

definition register :: "'ws \<Rightarrow> 'ws WebSocketServer \<Rightarrow> 'ws WebSocketServer" where
  "register websocket srv = srv\<lparr>connected_clients := insert websocket (connected_clients srv)\<rparr>"

text \<open>
  \<open>self.connected_clients.remove(websocket)\<close>: \<open>set.remove\<close> raises \<open>KeyError\<close> when the
  element is not in the set. The result is the exception, if any, with the server as the
  call leaves it.
\<close>

definition unregister :: "'ws \<Rightarrow> 'ws WebSocketServer \<Rightarrow> py_error option \<times> 'ws WebSocketServer" where
  "unregister websocket srv =
     (if websocket \<in> connected_clients srv
      then (None, srv\<lparr>connected_clients := connected_clients srv - {websocket}\<rparr>)
      else (Some KeyError, srv))"

text \<open>
  The network as the subscribers see it: the messages each has received. Whether a
  \<open>send\<close> to a subscriber raises, and what, is the environment's choice \<open>failure\<close>.
\<close>

type_synonym ('ws, 'msg) network = "'ws \<Rightarrow> 'msg list"

definition send ::
  "('ws \<Rightarrow> 'e option) \<Rightarrow> 'ws \<Rightarrow> 'msg \<Rightarrow> ('ws, 'msg) network \<Rightarrow> ('e + unit) \<times> ('ws, 'msg) network" where
  "send failure client message net =
     (case failure client of
        Some e \<Rightarrow> (Inl e, net)
      | None \<Rightarrow> (Inr (), net(client := net client @ [message])))"

fun send_all ::
  "('ws \<Rightarrow> 'e option) \<Rightarrow> 'ws list \<Rightarrow> 'msg \<Rightarrow> ('ws, 'msg) network
     \<Rightarrow> ('e + unit) list \<times> ('ws, 'msg) network" where
  "send_all failure [] message net = ([], net)"
| "send_all failure (client # clients) message net =
     (let (r, net1) = send failure client message net;
          (rs, net2) = send_all failure clients message net1
      in (r # rs, net2))"

text \<open>
  \<open>asyncio.gather(*aws, return_exceptions=flag)\<close> over the outcomes of the awaitables:
  with the flag set the exceptions are results like any other; without it the first
  exception is raised to the caller.
\<close>

definition gather :: "bool \<Rightarrow> ('e + 'a) list \<Rightarrow> 'e + ('e + 'a) list" where
  "gather return_exceptions outcomes =
     (if return_exceptions then Inr outcomes
      else (case List.find isl outcomes of
              Some (Inl e) \<Rightarrow> Inl e
            | _ \<Rightarrow> Inr outcomes))"

text \<open>
  \<open>broadcast\<close>. The list \<open>order\<close> is the order in which the comprehension iterates over
  the set \<open>connected_clients\<close>. The result is \<open>Inl\<close> when an exception leaves
  \<open>broadcast\<close> and otherwise the list that \<open>gather\<close> returns.
\<close>

definition broadcast ::
  "('ws \<Rightarrow> 'e option) \<Rightarrow> 'ws list \<Rightarrow> 'ws WebSocketServer \<Rightarrow> 'msg \<Rightarrow> ('ws, 'msg) network
     \<Rightarrow> ('e + ('e + unit) list) \<times> ('ws, 'msg) network" where
  "broadcast failure order srv message net =
     (if connected_clients srv = {} then (Inr [], net)
      else (let (outcomes, net') = send_all failure order message net
            in (gather True outcomes, net')))"

section \<open>Example data\<close>

text \<open>
  The IPv4 part of \<open>ipaddress.ip_address\<close>, for the examples: a dotted quad of four
  decimal octets without leading zeros, each at most 255; \<open>is_private\<close> is membership
  in one of the library's private IPv4 networks, \<open>is_loopback\<close> membership in
  127.0.0.0/8. Any other string is rejected here.
\<close>

definition is_digit :: "char \<Rightarrow> bool" where
  "is_digit c = (48 \<le> (of_char c :: nat) \<and> (of_char c :: nat) \<le> 57)"

fun split_on :: "char \<Rightarrow> string \<Rightarrow> string list" where
  "split_on sep [] = [[]]"
| "split_on sep (c # cs) =
     (if c = sep then [] # split_on sep cs
      else (case split_on sep cs of
              [] \<Rightarrow> [[c]]
            | p # ps \<Rightarrow> (c # p) # ps))"

definition parse_octet :: "string \<Rightarrow> nat option" where
  "parse_octet s =
     (if s = [] \<or> \<not> list_all is_digit s \<or> length s > 3 then None
      else if s \<noteq> ''0'' \<and> hd s = CHR ''0'' then None
      else let v = foldl (\<lambda>a c. 10 * a + ((of_char c :: nat) - 48)) 0 s
           in if v > 255 then None else Some v)"

definition ipv4_is_private :: "nat \<Rightarrow> nat \<Rightarrow> nat \<Rightarrow> nat \<Rightarrow> bool" where
  "ipv4_is_private a b c d \<longleftrightarrow>
     a = 0 \<or> a = 10 \<or> a = 127 \<or> (a = 169 \<and> b = 254) \<or> (a = 172 \<and> 16 \<le> b \<and> b \<le> 31)
     \<or> (a = 192 \<and> b = 0 \<and> c = 0 \<and> d \<le> 7) \<or> (a = 192 \<and> b = 0 \<and> c = 0 \<and> (d = 170 \<or> d = 171))
     \<or> (a = 192 \<and> b = 0 \<and> c = 2) \<or> (a = 192 \<and> b = 168) \<or> (a = 198 \<and> (b = 18 \<or> b = 19))
     \<or> (a = 198 \<and> b = 51 \<and> c = 100) \<or> (a = 203 \<and> b = 0 \<and> c = 113) \<or> 240 \<le> a"

definition ipv4_address :: ipaddress where
  "ipv4_address s =
     (case map parse_octet (split_on CHR ''.'' s) of
        [Some a, Some b, Some c, Some d] \<Rightarrow>
          Some \<lparr>is_private = ipv4_is_private a b c d,
                is_loopback = (a = 127),
                str = str_nat a @ ''.'' @ str_nat b @ ''.'' @ str_nat c @ ''.'' @ str_nat d\<rparr>
      | _ \<Rightarrow> None)"

text \<open>
  Three sampled connections: a listener on a public address at the remote-desktop port,
  a loopback listener, and an established connection from a public address.
\<close>

definition public_rdp :: sconn where
  "public_rdp =
     \<lparr>laddr = Some \<lparr>ip = ''93.184.216.34'', port = 3389\<rparr>, raddr = None,
      stype = SOCK_STREAM, status = ''LISTEN'', process = Proc_name ''svchost.exe'',
      now_iso = ''2024-01-01T00:00:00'', uuid4 = ''a''\<rparr>"

definition loopback_listener :: sconn where
  "loopback_listener =
     \<lparr>laddr = Some \<lparr>ip = ''127.0.0.1'', port = 5000\<rparr>, raddr = None,
      stype = SOCK_STREAM, status = ''LISTEN'', process = Proc_unavailable,
      now_iso = ''2024-01-01T00:00:00'', uuid4 = ''b''\<rparr>"

definition public_https :: sconn where
  "public_https =
     \<lparr>laddr = Some \<lparr>ip = ''93.184.216.34'', port = 443\<rparr>,
      raddr = Some \<lparr>ip = ''8.8.8.8'', port = 51000\<rparr>,
      stype = SOCK_STREAM, status = ''ESTABLISHED'', process = Proc_name ''nginx'',
      now_iso = ''2024-01-01T00:00:00'', uuid4 = ''c''\<rparr>"

text \<open>
  A datagram socket on the public address, the three records that a new tracker emits
  for the three public connections, and feature rows for them: two rows with the raw
  score 0.015 around one with the raw score -0.027.
\<close>

definition public_dns :: sconn where
  "public_dns =
     \<lparr>laddr = Some \<lparr>ip = ''93.184.216.34'', port = 53\<rparr>, raddr = None,
      stype = SOCK_DGRAM, status = ''NONE'', process = Proc_name ''named'',
      now_iso = ''2024-01-01T00:00:00'', uuid4 = ''d''\<rparr>"

definition three_records :: "connection_data list" where
  "three_records = fst (get_detailed_connections ipv4_address 5
     [public_rdp, public_https, public_dns] ConnectionTracker_init)"

definition feature_high :: feature_row where
  "feature_high = \<lparr>EventType = 0, category = 1, subcategory = 0, feat_duration = 0,
     feat_orig_pkts = 0, feat_orig_bytes = 0, service_cols = [1, 0]\<rparr>"

definition feature_low :: feature_row where
  "feature_low = \<lparr>EventType = 2, category = 0, subcategory = 0, feat_duration = 0,
     feat_orig_pkts = 0, feat_orig_bytes = 0, service_cols = [0, 1]\<rparr>"

definition tie_features :: "feature_row list" where
  "tie_features = [feature_high, feature_low, feature_high]"

text \<open>A sending environment in which the send to subscriber 2 raises.\<close>

definition second_fails :: "nat \<Rightarrow> string option" where
  "second_fails c = (if c = 2 then Some ''ConnectionClosed'' else None)"

text \<open>Three polling cycles of one handler, at the clock readings 0, 2 and 4.\<close>

definition three_cycles :: "(real \<times> sconn list) list" where
  "three_cycles = [(0, [public_https]), (2, [public_https, loopback_listener]), (4, [public_https])]"

section \<open>The tracker: one connection, one cycle, many cycles\<close>

subsection \<open>The loop body\<close>

lemma retention_test_eq: "retention_test a p = (\<not> a)"
  by (simp add: retention_test_def py_bool_def)

lemma pc_no_laddr: "laddr conn = None \<Longrightarrow> process_connection lib t st conn = st"
  by (simp add: process_connection_def)

lemma pc_current:
  "current_connections (process_connection lib t st conn) =
     (case conn_id_of conn of None \<Rightarrow> current_connections st
      | Some k \<Rightarrow> insert k (current_connections st))"
  by (simp add: process_connection_def conn_id_of_def Let_def
      split: option.split proc_lookup.split list.split)

lemma pc_start_times:
  "start_times (self (process_connection lib t st conn)) =
     (case conn_id_of conn of None \<Rightarrow> start_times (self st)
      | Some k \<Rightarrow> (start_times (self st))
          (k \<mapsto> (case start_times (self st) k of None \<Rightarrow> t | Some u \<Rightarrow> u)))"
  by (simp add: process_connection_def conn_id_of_def Let_def
      split: option.split proc_lookup.split list.split)

lemma pc_connections:
  assumes "conn_id_of conn = Some k" and "laddr conn = Some la"
  shows "(connections (self (process_connection lib t st conn)) = connections (self st)
          \<and> connections_data (process_connection lib t st conn) = connections_data st)
       \<or> (\<exists>r c rest. status conn = c # rest \<and> connections (self (process_connection lib t st conn)) = (connections (self st))(k \<mapsto> r)
            \<and> connections_data (process_connection lib t st conn) = connections_data st @ [r]
            \<and> \<not> is_local_address lib (ip la)
            \<and> history r = take 20 ((case connections (self st) k of None \<Rightarrow> [] | Some old \<Rightarrow> history old)
                                     @ [c])
            \<and> duration r = round3 (t - (case start_times (self st) k of None \<Rightarrow> t | Some u \<Rightarrow> u)))"
  using assms
  by (simp add: process_connection_def conn_id_of_def Let_def retention_test_eq
      split: option.split proc_lookup.split list.split)


lemma pc_other:
  assumes "conn_id_of conn \<noteq> Some k"
  shows "start_times (self (process_connection lib t st conn)) k = start_times (self st) k"
    and "connections (self (process_connection lib t st conn)) k = connections (self st) k"
proof -
  show "start_times (self (process_connection lib t st conn)) k = start_times (self st) k"
    using assms by (simp add: pc_start_times split: option.split)
  show "connections (self (process_connection lib t st conn)) k = connections (self st) k"
  proof (cases "laddr conn")
    case None
    then show ?thesis by (simp add: pc_no_laddr)
  next
    case (Some la)
    then obtain k' where k': "conn_id_of conn = Some k'" by (simp add: conn_id_of_def)
    with assms have "k' \<noteq> k" by simp
    with pc_connections [OF k' Some, of lib t st] show ?thesis by auto
  qed
qed

lemma pc_local:
  assumes "laddr conn = Some la" and "is_local_address lib (ip la)"
  shows "connections (self (process_connection lib t st conn)) = connections (self st)"
    and "connections_data (process_connection lib t st conn) = connections_data st"
proof -
  from assms(1) obtain k where k: "conn_id_of conn = Some k" by (simp add: conn_id_of_def)
  from pc_connections [OF k assms(1), of lib t st] assms(2)
  show "connections (self (process_connection lib t st conn)) = connections (self st)"
    and "connections_data (process_connection lib t st conn) = connections_data st"
    by auto
qed

lemma pc_projection:
  assumes "start_times (self st) k = start_times (self st2) k"
    and "connections (self st) k = connections (self st2) k"
  shows "start_times (self (process_connection lib t st conn)) k
           = start_times (self (process_connection lib t st2 conn)) k"
    and "connections (self (process_connection lib t st conn)) k
           = connections (self (process_connection lib t st2 conn)) k"
proof -
  show "start_times (self (process_connection lib t st conn)) k
           = start_times (self (process_connection lib t st2 conn)) k"
    using assms by (simp add: pc_start_times split: option.split)
  show "connections (self (process_connection lib t st conn)) k
           = connections (self (process_connection lib t st2 conn)) k"
  proof (cases "conn_id_of conn = Some k")
    case False
    then show ?thesis using assms by (simp add: pc_other)
  next
    case True
    then obtain la where la: "laddr conn = Some la" and k: "k = make_conn_id la (raddr conn)"
      by (auto simp: conn_id_of_def)
    from assms have "start_times (self st) (make_conn_id la (raddr conn))
          = start_times (self st2) (make_conn_id la (raddr conn))"
      and "connections (self st) (make_conn_id la (raddr conn))
          = connections (self st2) (make_conn_id la (raddr conn))"
      by (simp_all add: k)
    then show ?thesis unfolding k
      by (simp add: process_connection_def la Let_def
          split: proc_lookup.split list.split)
  qed
qed

subsection \<open>The loop\<close>

lemma loop_current:
  "current_connections (foldl (process_connection lib t) st conns) =
     current_connections st \<union> {k. Some k \<in> set (map conn_id_of conns)}"
proof (induction conns arbitrary: st)
  case Nil
  then show ?case by simp
next
  case (Cons c cs)
  show ?case
    by (cases "conn_id_of c") (auto simp: Cons.IH pc_current)
qed

lemma loop_other:
  assumes "Some k \<notin> set (map conn_id_of conns)"
  shows "start_times (self (foldl (process_connection lib t) st conns)) k = start_times (self st) k
       \<and> connections (self (foldl (process_connection lib t) st conns)) k = connections (self st) k"
  using assms
proof (induction conns arbitrary: st)
  case Nil
  then show ?case by simp
next
  case (Cons c cs)
  from Cons.prems have c: "conn_id_of c \<noteq> Some k" and cs: "Some k \<notin> set (map conn_id_of cs)"
    by auto
  show ?case
    using Cons.IH [OF cs, of "process_connection lib t st c"] pc_other [OF c, of lib t st]
    by simp
qed

lemma loop_start_kept:
  assumes "start_times (self st) k = Some u"
  shows "start_times (self (foldl (process_connection lib t) st conns)) k = Some u"
  using assms
proof (induction conns arbitrary: st)
  case Nil
  then show ?case by simp
next
  case (Cons c cs)
  have "start_times (self (process_connection lib t st c)) k = Some u"
    using Cons.prems by (simp add: pc_start_times split: option.split)
  from Cons.IH [OF this] show ?case by simp
qed

lemma loop_start_new:
  assumes "Some k \<in> set (map conn_id_of conns)" and "start_times (self st) k = None"
  shows "start_times (self (foldl (process_connection lib t) st conns)) k = Some t"
  using assms
proof (induction conns arbitrary: st)
  case Nil
  then show ?case by simp
next
  case (Cons c cs)
  show ?case
  proof (cases "conn_id_of c = Some k")
    case True
    then have "start_times (self (process_connection lib t st c)) k = Some t"
      using Cons.prems(2) by (simp add: pc_start_times)
    from loop_start_kept [OF this] show ?thesis by simp
  next
    case False
    with Cons.prems have cs: "Some k \<in> set (map conn_id_of cs)" by auto
    have "start_times (self (process_connection lib t st c)) k = None"
      using pc_other(1) [OF False] Cons.prems(2) by simp
    from Cons.IH [OF cs this] show ?thesis by simp
  qed
qed

lemma loop_projection:
  assumes "start_times (self st) k = start_times (self st2) k"
    and "connections (self st) k = connections (self st2) k"
  shows "start_times (self (foldl (process_connection lib t) st conns)) k
           = start_times (self (foldl (process_connection lib t) st2 conns)) k
       \<and> connections (self (foldl (process_connection lib t) st conns)) k
           = connections (self (foldl (process_connection lib t) st2 conns)) k"
  using assms
proof (induction conns arbitrary: st st2)
  case Nil
  then show ?case by simp
next
  case (Cons c cs)
  from Cons.IH [OF pc_projection [OF Cons.prems]] show ?case by simp
qed

lemma loop_local:
  assumes "\<forall>c \<in> set conns. \<forall>la. conn_id_of c = Some k \<longrightarrow> laddr c = Some la
              \<longrightarrow> is_local_address lib (ip la)"
  shows "connections (self (foldl (process_connection lib t) st conns)) k = connections (self st) k"
  using assms
proof (induction conns arbitrary: st)
  case Nil
  then show ?case by simp
next
  case (Cons c cs)
  have step: "connections (self (process_connection lib t st c)) k = connections (self st) k"
  proof (cases "conn_id_of c = Some k")
    case False
    then show ?thesis by (rule pc_other)
  next
    case True
    then obtain la where la: "laddr c = Some la" by (auto simp: conn_id_of_def)
    with True Cons.prems have "is_local_address lib (ip la)" by simp
    from pc_local(1) [OF la this] show ?thesis by simp
  qed
  from Cons.prems have "\<forall>c \<in> set cs. \<forall>la. conn_id_of c = Some k \<longrightarrow> laddr c = Some la
              \<longrightarrow> is_local_address lib (ip la)" by simp
  from Cons.IH [OF this, of "process_connection lib t st c"] step show ?case by simp
qed

lemma pc_history_capped:
  assumes "history_capped st"
  shows "history_capped (process_connection lib t st conn)"
proof (cases "laddr conn")
  case None
  then show ?thesis using assms by (simp add: pc_no_laddr)
next
  case (Some la)
  then obtain k where k: "conn_id_of conn = Some k" by (simp add: conn_id_of_def)
  let ?st' = "process_connection lib t st conn"
  from pc_connections [OF k Some, of lib t st]
  consider "connections (self ?st') = connections (self st)"
      "connections_data ?st' = connections_data st"
    | r where "connections (self ?st') = (connections (self st))(k \<mapsto> r)"
      "connections_data ?st' = connections_data st @ [r]" "length (history r) \<le> 20"
    by (elim disjE exE conjE) simp_all
  then show ?thesis
  proof cases
    case 1
    then show ?thesis using assms by (simp add: history_capped_def)
  next
    case 2
    then show ?thesis using assms by (auto simp: history_capped_def)
  qed
qed

lemma loop_history_capped:
  "history_capped st \<Longrightarrow> history_capped (foldl (process_connection lib t) st conns)"
  by (induction conns arbitrary: st) (simp_all add: pc_history_capped)

lemma pc_dom:
  assumes "dom (connections (self st)) \<subseteq> dom (start_times (self st))"
  shows "dom (connections (self (process_connection lib t st conn)))
           \<subseteq> dom (start_times (self (process_connection lib t st conn)))"
proof (cases "laddr conn")
  case None
  then show ?thesis using assms by (simp add: pc_no_laddr)
next
  case (Some la)
  then obtain k where k: "conn_id_of conn = Some k" by (simp add: conn_id_of_def)
  let ?st' = "process_connection lib t st conn"
  have st: "dom (start_times (self ?st')) = insert k (dom (start_times (self st)))"
    by (simp add: pc_start_times k)
  from pc_connections [OF k Some, of lib t st]
  consider "connections (self ?st') = connections (self st)"
    | r where "connections (self ?st') = (connections (self st))(k \<mapsto> r)"
    by blast
  then show ?thesis
  proof cases
    case 1
    then show ?thesis using assms st by auto
  next
    case 2
    then show ?thesis using assms st by auto
  qed
qed

lemma loop_dom:
  "dom (connections (self st)) \<subseteq> dom (start_times (self st)) \<Longrightarrow>
   dom (connections (self (foldl (process_connection lib t) st conns)))
     \<subseteq> dom (start_times (self (foldl (process_connection lib t) st conns)))"
  by (induction conns arbitrary: st) (simp_all add: pc_dom)

subsection \<open>A cycle and a run of cycles\<close>

lemma gdc_fst: "fst (get_detailed_connections lib t conns tr) = connections_data (poll_loop lib t conns tr)"
  by (simp add: get_detailed_connections_def Let_def)

lemma gdc_snd:
  "snd (get_detailed_connections lib t conns tr)
     = clean_up (current_connections (poll_loop lib t conns tr)) (self (poll_loop lib t conns tr))"
  by (simp add: get_detailed_connections_def Let_def)

lemma poll_current:
  "current_connections (poll_loop lib t conns tr) = {k. Some k \<in> set (map conn_id_of conns)}"
  by (simp add: poll_loop_def loop_current)

lemma cycle_start_times:
  "start_times (snd (get_detailed_connections lib t conns tr)) k =
     (if Some k \<in> set (map conn_id_of conns)
      then Some (case start_times tr k of None \<Rightarrow> t | Some u \<Rightarrow> u)
      else None)"
proof (cases "Some k \<in> set (map conn_id_of conns)")
  case True
  have "start_times (self (poll_loop lib t conns tr)) k
          = Some (case start_times tr k of None \<Rightarrow> t | Some u \<Rightarrow> u)"
  proof (cases "start_times tr k")
    case None
    with loop_start_new [OF True, of "\<lparr>current_connections = {}, connections_data = [], self = tr\<rparr>" lib t]
    show ?thesis by (simp add: poll_loop_def)
  next
    case (Some u)
    with loop_start_kept [of "\<lparr>current_connections = {}, connections_data = [], self = tr\<rparr>" k u lib t conns]
    show ?thesis by (simp add: poll_loop_def)
  qed
  with True show ?thesis by (simp add: gdc_snd clean_up_def poll_current)
next
  case False
  then show ?thesis by (auto simp: gdc_snd clean_up_def poll_current)
qed

lemma cycle_connections_present:
  assumes "Some k \<in> set (map conn_id_of conns)"
  shows "connections (snd (get_detailed_connections lib t conns tr)) k
           = connections (self (poll_loop lib t conns tr)) k"
  using assms by (simp add: gdc_snd clean_up_def poll_current)

lemma poll_dom:
  assumes "dom (connections tr) \<subseteq> dom (start_times tr)"
  shows "dom (connections (self (poll_loop lib t conns tr)))
           \<subseteq> dom (start_times (self (poll_loop lib t conns tr)))"
  unfolding poll_loop_def using assms by (intro loop_dom) simp

lemma cycle_connections_absent:
  assumes "dom (connections tr) \<subseteq> dom (start_times tr)"
    and "Some k \<notin> set (map conn_id_of conns)"
  shows "connections (snd (get_detailed_connections lib t conns tr)) k = None"
proof -
  from poll_dom [OF assms(1), of lib t conns]
  have "connections (self (poll_loop lib t conns tr)) k \<noteq> None
          \<Longrightarrow> k \<in> dom (start_times (self (poll_loop lib t conns tr)))"
    by auto
  with assms(2) show ?thesis by (auto simp: gdc_snd clean_up_def poll_current)
qed

lemma cycle_dom:
  assumes "dom (connections tr) \<subseteq> dom (start_times tr)"
  shows "dom (connections (snd (get_detailed_connections lib t conns tr)))
           \<subseteq> dom (start_times (snd (get_detailed_connections lib t conns tr)))"
proof
  fix k assume k: "k \<in> dom (connections (snd (get_detailed_connections lib t conns tr)))"
  have "Some k \<in> set (map conn_id_of conns)"
  proof (rule ccontr)
    assume "Some k \<notin> set (map conn_id_of conns)"
    from cycle_connections_absent [OF assms this, of lib t] k show False by auto
  qed
  then show "k \<in> dom (start_times (snd (get_detailed_connections lib t conns tr)))"
    using cycle_start_times [of lib t conns tr k] by (simp add: dom_def)
qed

lemma cycle_capped:
  assumes "\<forall>k r. connections tr k = Some r \<longrightarrow> length (history r) \<le> 20"
  shows "(\<forall>r \<in> set (fst (get_detailed_connections lib t conns tr)). length (history r) \<le> 20)
       \<and> (\<forall>k r. connections (snd (get_detailed_connections lib t conns tr)) k = Some r
              \<longrightarrow> length (history r) \<le> 20)"
proof -
  have "history_capped \<lparr>current_connections = {}, connections_data = [], self = tr\<rparr>"
    using assms by (simp add: history_capped_def)
  then have "history_capped (poll_loop lib t conns tr)"
    unfolding poll_loop_def by (rule loop_history_capped)
  then show ?thesis
    by (auto simp: history_capped_def gdc_fst gdc_snd clean_up_def split: if_splits)
qed

lemma handler_cycles_Cons:
  "handler_cycles lib ((t, conns) # rest) tr =
     (fst (get_detailed_connections lib t conns tr)
        # fst (handler_cycles lib rest (snd (get_detailed_connections lib t conns tr))),
      snd (handler_cycles lib rest (snd (get_detailed_connections lib t conns tr))))"
  by (simp add: case_prod_unfold Let_def)

lemma handler_invariants:
  assumes "handler_cycles lib cycles tr = (outs, tr')"
    and "dom (connections tr) \<subseteq> dom (start_times tr)"
    and "\<forall>k r. connections tr k = Some r \<longrightarrow> length (history r) \<le> 20"
  shows "dom (connections tr') \<subseteq> dom (start_times tr')
       \<and> (\<forall>k r. connections tr' k = Some r \<longrightarrow> length (history r) \<le> 20)
       \<and> (\<forall>out \<in> set outs. \<forall>r \<in> set out. length (history r) \<le> 20)"
  using assms
proof (induction cycles arbitrary: tr outs)
  case Nil
  then show ?case by simp
next
  case (Cons cyc cycles)
  obtain t conns where cyc: "cyc = (t, conns)" by (cases cyc)
  let ?g = "get_detailed_connections lib t conns tr"
  define outs2 where "outs2 = fst (handler_cycles lib cycles (snd ?g))"
  from Cons.prems(1) have outs: "outs = fst ?g # outs2"
    and rest: "handler_cycles lib cycles (snd ?g) = (outs2, tr')"
    by (auto simp: cyc outs2_def handler_cycles_Cons simp del: handler_cycles.simps)
  note step = cycle_capped [OF Cons.prems(3), of lib t conns]
  from Cons.IH [OF rest cycle_dom [OF Cons.prems(2)]] step
  show ?case unfolding outs by simp
qed

lemma init_invariants:
  "dom (connections ConnectionTracker_init) \<subseteq> dom (start_times ConnectionTracker_init)"
  "\<forall>k r. connections ConnectionTracker_init k = Some r \<longrightarrow> length (history r) \<le> 20"
  by (simp_all add: ConnectionTracker_init_def)

section \<open>The example data evaluated\<close>

lemma str_int_examples:
  "str_int 3389 = ''3389''" "str_int 5000 = ''5000''" "str_int 443 = ''443''"
  "str_int 51000 = ''51000''"
  by (simp_all add: str_int_def str_nat.simps digit_char_def)

lemma id_public_rdp: "conn_id_of public_rdp = Some ''93.184.216.34:3389-None:None''"
  by (simp add: conn_id_of_def make_conn_id_def public_rdp_def str_int_examples)

lemma id_loopback_listener: "conn_id_of loopback_listener = Some ''127.0.0.1:5000-None:None''"
  by (simp add: conn_id_of_def make_conn_id_def loopback_listener_def str_int_examples)

lemma id_public_https: "conn_id_of public_https = Some ''93.184.216.34:443-8.8.8.8:51000''"
  by (simp add: conn_id_of_def make_conn_id_def public_https_def str_int_examples)

lemma ipv4_examples:
  "is_local_address ipv4_address ''93.184.216.34'' = False"
  "is_local_address ipv4_address ''127.0.0.1'' = True"
  "is_local_address ipv4_address ''8.8.8.8'' = False"
  "is_local_address ipv4_address ''0.0.0.0'' = True"
  by code_simp+

lemmas cycle_eval = get_detailed_connections_def poll_loop_def process_connection_def
  clean_up_def ConnectionTracker_init_def Let_def retention_test_eq conn_id_of_def
  make_conn_id_def str_int_examples ipv4_examples round3_def

lemma round3_zero: "round3 0 = 0"
  by (simp add: round3_def)

lemma pc_fresh:
  assumes "conn_id_of c = Some k"
    and "start_times (self st) k = None" and "connections (self st) k = None"
  shows "connections_data (process_connection lib t st c) = connections_data st
       \<or> (\<exists>r. connections_data (process_connection lib t st c) = connections_data st @ [r]
             \<and> history r = take 1 (status c) \<and> duration r = 0)"
proof -
  from assms(1) obtain la where la: "laddr c = Some la" by (auto simp: conn_id_of_def)
  from pc_connections [OF assms(1) la, of lib t st] show ?thesis
    using assms(2,3) by (auto simp: round3_zero)
qed

section \<open>Claims about the tracker\<close>

text \<open>
  C1. The claim: a sampled connection is retained (appended to the output of the cycle
  and stored in the tracker) if and only if its local address is not classified as local
  and its local port is not 3389; a connection on a public address with local port 3389
  is excluded. The code does not do this: by \<open>retention_test_eq\<close> the condition of the
  source ignores the port. In a cycle on a new tracker that samples one listener on
  93.184.216.34:3389, the address is not local, the record is in the output and it is
  stored under the identity of the connection.
\<close>

theorem public_rdp_retained:
  "\<not> is_local_address ipv4_address ''93.184.216.34''
   \<and> map (\<lambda>r. (id_orig_h r, id_orig_p r))
       (fst (get_detailed_connections ipv4_address 5 [public_rdp] ConnectionTracker_init))
     = [(''93.184.216.34'', 3389)]
   \<and> map_option id_orig_p
       (connections (snd (get_detailed_connections ipv4_address 5 [public_rdp] ConnectionTracker_init))
          ''93.184.216.34:3389-None:None'') = Some 3389"
  by (simp add: cycle_eval public_rdp_def)

text \<open>
  C3, as stated, fails. The claim: a connection rejected by the retention test leaves
  both stored maps unchanged for its identity. A loopback listener is rejected (its
  address is local, nothing is emitted), and yet after the cycle its identity has a
  start time that it did not have before.
\<close>

theorem rejected_connection_start_time_counterexample:
  "is_local_address ipv4_address ''127.0.0.1''
   \<and> laddr loopback_listener = Some \<lparr>ip = ''127.0.0.1'', port = 5000\<rparr>
   \<and> conn_id_of loopback_listener = Some ''127.0.0.1:5000-None:None''
   \<and> fst (get_detailed_connections ipv4_address 7 [loopback_listener] ConnectionTracker_init) = []
   \<and> start_times ConnectionTracker_init ''127.0.0.1:5000-None:None'' = None
   \<and> start_times (snd (get_detailed_connections ipv4_address 7 [loopback_listener]
        ConnectionTracker_init)) ''127.0.0.1:5000-None:None'' = Some 7"
  by (simp add: cycle_eval loopback_listener_def)

text \<open>
  C3, amended. If every sampled connection of a cycle with identity \<open>k\<close> is rejected
  because its local address is classified as local, then after the cycle the stored
  record of \<open>k\<close> is what it was before, and the start time of \<open>k\<close> is the one it had
  or, when it had none, the clock reading of this cycle.
\<close>

theorem rejected_connection_frame:
  assumes "\<forall>c \<in> set conns. conn_id_of c = Some k \<longrightarrow>
             (\<exists>la. laddr c = Some la \<and> is_local_address ip_address (ip la))"
    and "Some k \<in> set (map conn_id_of conns)"
    and "get_detailed_connections ip_address t conns tr = (out, tr')"
  shows "connections tr' k = connections tr k
       \<and> start_times tr' k = Some (case start_times tr k of None \<Rightarrow> t | Some u \<Rightarrow> u)"
proof -
  from assms(3) have tr': "tr' = snd (get_detailed_connections ip_address t conns tr)" by simp
  from assms(1) have "\<forall>c \<in> set conns. \<forall>la. conn_id_of c = Some k \<longrightarrow> laddr c = Some la
              \<longrightarrow> is_local_address ip_address (ip la)" by fastforce
  from loop_local [OF this, of t "\<lparr>current_connections = {}, connections_data = [], self = tr\<rparr>"]
  have "connections (self (poll_loop ip_address t conns tr)) k = connections tr k"
    by (simp add: poll_loop_def)
  with assms(2) show ?thesis
    by (simp add: tr' cycle_connections_present cycle_start_times)
qed

text \<open>
  The amended C3 at the loopback listener sampled by a new tracker at time 7.
\<close>

theorem rejected_connection_frame_witness:
  "conn_id_of loopback_listener = Some ''127.0.0.1:5000-None:None''
   \<and> (\<exists>la. laddr loopback_listener = Some la \<and> is_local_address ipv4_address (ip la))
   \<and> connections (snd (get_detailed_connections ipv4_address 7 [loopback_listener]
        ConnectionTracker_init)) ''127.0.0.1:5000-None:None''
       = connections ConnectionTracker_init ''127.0.0.1:5000-None:None''
   \<and> start_times (snd (get_detailed_connections ipv4_address 7 [loopback_listener]
        ConnectionTracker_init)) ''127.0.0.1:5000-None:None'' = Some 7"
proof -
  have h0: "\<exists>la. laddr loopback_listener = Some la \<and> is_local_address ipv4_address (ip la)"
    by (simp add: loopback_listener_def ipv4_examples)
  then have h1: "\<forall>c \<in> set [loopback_listener]. conn_id_of c = Some ''127.0.0.1:5000-None:None'' \<longrightarrow>
       (\<exists>la. laddr c = Some la \<and> is_local_address ipv4_address (ip la))"
    by simp
  have h2: "Some ''127.0.0.1:5000-None:None'' \<in> set (map conn_id_of [loopback_listener])"
    by (simp add: id_loopback_listener)
  have h3: "get_detailed_connections ipv4_address 7 [loopback_listener] ConnectionTracker_init
      = (fst (get_detailed_connections ipv4_address 7 [loopback_listener] ConnectionTracker_init),
         snd (get_detailed_connections ipv4_address 7 [loopback_listener] ConnectionTracker_init))"
    by simp
  from rejected_connection_frame [OF h1 h2 h3] h0 id_loopback_listener show ?thesis
    by (simp add: ConnectionTracker_init_def)
qed

text \<open>
  C5. In every cycle of a handler, however many cycles came before, every record that
  the tracker emits and every record that it stores has a history of at most 20
  characters.
\<close>

theorem history_never_exceeds_cap:
  assumes "handler_cycles ip_address cycles ConnectionTracker_init = (outs, tr)"
  shows "(\<forall>out \<in> set outs. \<forall>r \<in> set out. length (history r) \<le> 20)
       \<and> (\<forall>k r. connections tr k = Some r \<longrightarrow> length (history r) \<le> 20)"
  using handler_invariants [OF assms init_invariants] by blast

lemma three_cycles_histories:
  "map (map history) (fst (handler_cycles ipv4_address three_cycles ConnectionTracker_init))
     = [[''E''], [''EE''], [''EEE'']]"
  by (simp add: three_cycles_def cycle_eval public_https_def loopback_listener_def)

lemma three_cycles_stored:
  "map_option history (connections (snd (handler_cycles ipv4_address three_cycles ConnectionTracker_init))
       ''93.184.216.34:443-8.8.8.8:51000'') = Some ''EEE''"
  by (simp add: three_cycles_def cycle_eval public_https_def loopback_listener_def)

text \<open>
  C5 on three cycles in which the same public connection is sampled: the histories
  emitted are E, EE and EEE, and the stored history is EEE.
\<close>

theorem history_never_exceeds_cap_witness:
  "map (map history) (fst (handler_cycles ipv4_address three_cycles ConnectionTracker_init))
     = [[''E''], [''EE''], [''EEE'']]
   \<and> list_all (list_all (\<lambda>r. length (history r) \<le> 20))
       (fst (handler_cycles ipv4_address three_cycles ConnectionTracker_init))
   \<and> (\<exists>r. connections (snd (handler_cycles ipv4_address three_cycles ConnectionTracker_init))
             ''93.184.216.34:443-8.8.8.8:51000'' = Some r
          \<and> history r = ''EEE'' \<and> length (history r) \<le> 20)"
proof -
  let ?run = "handler_cycles ipv4_address three_cycles ConnectionTracker_init"
  have "?run = (fst ?run, snd ?run)" by simp
  from history_never_exceeds_cap [OF this]
  have outs: "\<forall>out \<in> set (fst ?run). \<forall>r \<in> set out. length (history r) \<le> 20"
    and stored: "\<forall>k r. connections (snd ?run) k = Some r \<longrightarrow> length (history r) \<le> 20"
    by blast+
  from three_cycles_stored obtain r
    where r: "connections (snd ?run) ''93.184.216.34:443-8.8.8.8:51000'' = Some r"
      and h: "history r = ''EEE''"
    by auto
  from outs have "list_all (list_all (\<lambda>r. length (history r) \<le> 20)) (fst ?run)"
    by (simp add: list_all_iff)
  with three_cycles_histories stored r h show ?thesis by blast
qed

text \<open>
  C6. Let \<open>tr\<close> be the tracker of a handler after any number of cycles, and let the
  next cycle sample no connection of identity \<open>k\<close>. After that cycle \<open>k\<close> has neither a
  start time nor a stored record. If a later cycle samples \<open>k\<close> again, the start time
  of \<open>k\<close> is the clock reading of that cycle and the record stored for \<open>k\<close> is the one a
  new tracker would store in that cycle; the first connection of identity \<open>k\<close> in it
  emits, if it emits anything, a record whose history is the first character of its status
  and whose duration is 0. (Cycles between the eviction and the return do not sample
  \<open>k\<close>, so each of them is a cycle \<open>conns1\<close> of this statement.)
\<close>

theorem absent_identity_evicted_and_fresh:
  assumes "handler_cycles ip_address cycles ConnectionTracker_init = (outs, tr)"
    and "Some k \<notin> set (map conn_id_of conns1)"
    and "get_detailed_connections ip_address t1 conns1 tr = (out1, tr1)"
  shows "start_times tr1 k = None \<and> connections tr1 k = None
       \<and> (\<forall>t2 conns2. Some k \<in> set (map conn_id_of conns2) \<longrightarrow>
            start_times (snd (get_detailed_connections ip_address t2 conns2 tr1)) k = Some t2
          \<and> connections (snd (get_detailed_connections ip_address t2 conns2 tr1)) k
              = connections (snd (get_detailed_connections ip_address t2 conns2
                                    ConnectionTracker_init)) k)
       \<and> (\<forall>t2 pre c. Some k \<notin> set (map conn_id_of pre) \<and> conn_id_of c = Some k \<longrightarrow>
            connections_data (poll_loop ip_address t2 (pre @ [c]) tr1)
              = connections_data (poll_loop ip_address t2 pre tr1)
          \<or> (\<exists>r. connections_data (poll_loop ip_address t2 (pre @ [c]) tr1)
                    = connections_data (poll_loop ip_address t2 pre tr1) @ [r]
                \<and> history r = take 1 (status c) \<and> duration r = 0))"
proof -
  from assms(3) have tr1: "tr1 = snd (get_detailed_connections ip_address t1 conns1 tr)" by simp
  from handler_invariants [OF assms(1) init_invariants]
  have dom: "dom (connections tr) \<subseteq> dom (start_times tr)" by blast
  have s1: "start_times tr1 k = None"
    using assms(2) by (simp add: tr1 cycle_start_times)
  have c1: "connections tr1 k = None"
    unfolding tr1 using dom assms(2) by (rule cycle_connections_absent)
  have later: "start_times (snd (get_detailed_connections ip_address t2 conns2 tr1)) k = Some t2
          \<and> connections (snd (get_detailed_connections ip_address t2 conns2 tr1)) k
              = connections (snd (get_detailed_connections ip_address t2 conns2
                                    ConnectionTracker_init)) k"
    if k2: "Some k \<in> set (map conn_id_of conns2)" for t2 conns2
  proof -
    have "start_times (snd (get_detailed_connections ip_address t2 conns2 tr1)) k = Some t2"
      using k2 s1 by (simp add: cycle_start_times)
    moreover have "connections (self (poll_loop ip_address t2 conns2 tr1)) k
          = connections (self (poll_loop ip_address t2 conns2 ConnectionTracker_init)) k"
      unfolding poll_loop_def
      using loop_projection [of "\<lparr>current_connections = {}, connections_data = [], self = tr1\<rparr>" k
          "\<lparr>current_connections = {}, connections_data = [], self = ConnectionTracker_init\<rparr>"
          ip_address t2 conns2] s1 c1
      by (simp add: ConnectionTracker_init_def)
    ultimately show ?thesis using k2 by (simp add: cycle_connections_present)
  qed
  have first: "connections_data (poll_loop ip_address t2 (pre @ [c]) tr1)
              = connections_data (poll_loop ip_address t2 pre tr1)
          \<or> (\<exists>r. connections_data (poll_loop ip_address t2 (pre @ [c]) tr1)
                    = connections_data (poll_loop ip_address t2 pre tr1) @ [r]
                \<and> history r = take 1 (status c) \<and> duration r = 0)"
    if pre: "Some k \<notin> set (map conn_id_of pre)" and c: "conn_id_of c = Some k" for t2 pre c
  proof -
    from loop_other [OF pre, of ip_address t2
        "\<lparr>current_connections = {}, connections_data = [], self = tr1\<rparr>"] s1 c1
    have "start_times (self (poll_loop ip_address t2 pre tr1)) k = None"
      and "connections (self (poll_loop ip_address t2 pre tr1)) k = None"
      by (simp_all add: poll_loop_def)
    from pc_fresh [OF c this, of ip_address t2] show ?thesis
      by (simp add: poll_loop_def)
  qed
  from s1 c1 later first show ?thesis by blast
qed

lemma fresh_https_history:
  "map_option history (connections (snd (get_detailed_connections ipv4_address 9 [public_https]
       ConnectionTracker_init)) ''93.184.216.34:443-8.8.8.8:51000'') = Some ''E''"
  by (simp add: cycle_eval public_https_def)

lemma tracked_https_start:
  "start_times (snd (handler_cycles ipv4_address [(0, [public_https])] ConnectionTracker_init))
      ''93.184.216.34:443-8.8.8.8:51000'' = Some 0"
  by (simp add: cycle_eval public_https_def)

text \<open>
  C6 on a handler that samples a public connection at time 0, does not see it at time 2
  and sees it again at time 9: it was tracked since 0, is forgotten at 2, and at 9 has
  the start time 9 and the history E.
\<close>

theorem absent_identity_evicted_and_fresh_witness:
  "start_times (snd (handler_cycles ipv4_address [(0, [public_https])] ConnectionTracker_init))
      ''93.184.216.34:443-8.8.8.8:51000'' = Some 0
   \<and> Some ''93.184.216.34:443-8.8.8.8:51000'' \<notin> set (map conn_id_of [loopback_listener])
   \<and> start_times (snd (get_detailed_connections ipv4_address 2 [loopback_listener]
        (snd (handler_cycles ipv4_address [(0, [public_https])] ConnectionTracker_init))))
        ''93.184.216.34:443-8.8.8.8:51000'' = None
   \<and> connections (snd (get_detailed_connections ipv4_address 2 [loopback_listener]
        (snd (handler_cycles ipv4_address [(0, [public_https])] ConnectionTracker_init))))
        ''93.184.216.34:443-8.8.8.8:51000'' = None
   \<and> start_times (snd (get_detailed_connections ipv4_address 9 [public_https]
        (snd (get_detailed_connections ipv4_address 2 [loopback_listener]
          (snd (handler_cycles ipv4_address [(0, [public_https])] ConnectionTracker_init))))))
        ''93.184.216.34:443-8.8.8.8:51000'' = Some 9
   \<and> map_option history (connections (snd (get_detailed_connections ipv4_address 9 [public_https]
        (snd (get_detailed_connections ipv4_address 2 [loopback_listener]
          (snd (handler_cycles ipv4_address [(0, [public_https])] ConnectionTracker_init))))))
        ''93.184.216.34:443-8.8.8.8:51000'') = Some ''E''"
proof -
  let ?k = "''93.184.216.34:443-8.8.8.8:51000''"
  let ?run = "handler_cycles ipv4_address [(0, [public_https])] ConnectionTracker_init"
  let ?c1 = "get_detailed_connections ipv4_address 2 [loopback_listener] (snd ?run)"
  have h1: "?run = (fst ?run, snd ?run)" by simp
  have h2: "Some ?k \<notin> set (map conn_id_of [loopback_listener])"
    by (simp add: id_loopback_listener)
  have h3: "?c1 = (fst ?c1, snd ?c1)" by simp
  have k2: "Some ?k \<in> set (map conn_id_of [public_https])"
    by (simp add: id_public_https)
  from absent_identity_evicted_and_fresh [OF h1 h2 h3]
  have gone: "start_times (snd ?c1) ?k = None \<and> connections (snd ?c1) ?k = None"
    and fresh: "\<forall>t2 conns2. Some ?k \<in> set (map conn_id_of conns2) \<longrightarrow>
            start_times (snd (get_detailed_connections ipv4_address t2 conns2 (snd ?c1))) ?k = Some t2
          \<and> connections (snd (get_detailed_connections ipv4_address t2 conns2 (snd ?c1))) ?k
              = connections (snd (get_detailed_connections ipv4_address t2 conns2
                                    ConnectionTracker_init)) ?k"
    by blast+
  from fresh k2
  have "start_times (snd (get_detailed_connections ipv4_address 9 [public_https] (snd ?c1))) ?k = Some 9"
    and "connections (snd (get_detailed_connections ipv4_address 9 [public_https] (snd ?c1))) ?k
          = connections (snd (get_detailed_connections ipv4_address 9 [public_https]
                                    ConnectionTracker_init)) ?k"
    by blast+
  with gone h2 tracked_https_start fresh_https_history show ?thesis by simp
qed

section \<open>Claims about the analyzer\<close>

subsection \<open>Unregistering\<close>

text \<open>
  C2, as stated, fails. The claim: \<open>unregister\<close> of a subscriber that is not in the set
  raises nothing. With the set \<open>{2}\<close> and the subscriber 1 the call raises
  \<open>KeyError\<close>.
\<close>

theorem unregister_absent_raises_counterexample:
  "(1::nat) \<notin> connected_clients \<lparr>connected_clients = {2}\<rparr>
   \<and> fst (unregister (1::nat) \<lparr>connected_clients = {2}\<rparr>) = Some KeyError"
  by (simp add: unregister_def)

text \<open>
  C2, amended. \<open>unregister\<close> of a subscriber that is not in the set raises
  \<open>KeyError\<close> and leaves the server, and so the set, as it was.
\<close>

theorem unregister_absent_raises:
  assumes "websocket \<notin> connected_clients srv"
  shows "unregister websocket srv = (Some KeyError, srv)"
  using assms by (simp add: unregister_def)

text \<open>The amended C2 at the set \<open>{2}\<close> and the subscriber 1.\<close>

theorem unregister_absent_raises_witness:
  "(1::nat) \<notin> connected_clients \<lparr>connected_clients = {2}\<rparr>
   \<and> unregister (1::nat) \<lparr>connected_clients = {2}\<rparr> = (Some KeyError, \<lparr>connected_clients = {2}\<rparr>)"
  using unregister_absent_raises [of "1::nat" "\<lparr>connected_clients = {2}\<rparr>"] by simp

subsection \<open>Scores\<close>

lemma raw_score_examples:
  "raw_score feature_high = 0.015" "raw_score feature_low = - 0.027"
  by (simp_all add: raw_score_def feature_high_def feature_low_def)

subsection \<open>Selection of the largest\<close>

lemma sorted_wrt_filter_nth:
  assumes "sorted_wrt R (filter P xs)" and "p < q" and "q < length xs"
    and "P (xs ! p)" and "P (xs ! q)"
  shows "R (xs ! p) (xs ! q)"
proof -
  from assms(2,3) have p: "p < length xs" by simp
  have split: "xs = take p xs @ xs ! p # drop (Suc p) xs"
    using p by (rule id_take_nth_drop)
  have "xs ! q = drop (Suc p) xs ! (q - Suc p)"
    using assms(2,3) by simp
  moreover have "q - Suc p < length (drop (Suc p) xs)"
    using assms(2,3) by simp
  ultimately have mem: "xs ! q \<in> set (drop (Suc p) xs)"
    by (metis nth_mem)
  have "sorted_wrt R (filter P (take p xs @ xs ! p # drop (Suc p) xs))"
    using assms(1) split by simp
  then have "sorted_wrt R (xs ! p # filter P (drop (Suc p) xs))"
    using assms(4) by (simp add: sorted_wrt_append)
  then show ?thesis using mem assms(5) by simp
qed

lemma sort_key_tie:
  fixes f :: "nat \<Rightarrow> real"
  assumes "p < q" and "q < length (sort_key f [0..<m])"
    and "f (sort_key f [0..<m] ! p) = f (sort_key f [0..<m] ! q)"
  shows "sort_key f [0..<m] ! p < sort_key f [0..<m] ! q"
proof -
  define s where "s = sort_key f [0..<m]"
  define k where "k = f (s ! p)"
  have a: "sorted_wrt (<) (filter (\<lambda>y. f y = k) [0..<m])"
    by (rule sorted_wrt_filter) (rule sorted_wrt_upt)
  have b: "filter (\<lambda>y. f y = k) s = filter (\<lambda>y. f y = k) [0..<m]"
    unfolding s_def by (rule sort_key_stable)
  have c: "sorted_wrt (<) (filter (\<lambda>y. f y = k) s)"
    unfolding b by (rule a)
  have q: "q < length s" using assms(2) by (simp only: s_def)
  have Pp: "f (s ! p) = k" by (simp only: k_def)
  have Pq: "f (s ! q) = k" using assms(3) by (simp only: k_def s_def)
  have "s ! p < s ! q"
    by (rule sorted_wrt_filter_nth [where P = "\<lambda>y. f y = k", OF c assms(1) q Pp Pq])
  then show ?thesis by (simp only: s_def)
qed

lemma nlargest_index_props:
  fixes xs :: "real list"
  shows "length (nlargest_index n xs) \<le> n" and "distinct (nlargest_index n xs)"
    and "set (nlargest_index n xs) \<subseteq> {..<length xs}"
    and "\<And>p q. p < q \<Longrightarrow> q < length (nlargest_index n xs) \<Longrightarrow>
           xs ! (nlargest_index n xs ! q) \<le> xs ! (nlargest_index n xs ! p)
           \<and> (xs ! (nlargest_index n xs ! p) = xs ! (nlargest_index n xs ! q)
                \<longrightarrow> nlargest_index n xs ! p < nlargest_index n xs ! q)"
proof -
  let ?f = "\<lambda>i. - (xs ! i)"
  let ?s = "sort_key ?f [0..<length xs]"
  define idx where "idx = nlargest_index n xs"
  have idx: "idx = take n ?s" by (simp add: idx_def nlargest_index_def)
  show "length (nlargest_index n xs) \<le> n" by (simp add: nlargest_index_def)
  show "distinct (nlargest_index n xs)" by (simp add: nlargest_index_def)
  have "set idx \<subseteq> set ?s" unfolding idx by (rule set_take_subset)
  then show "set (nlargest_index n xs) \<subseteq> {..<length xs}" unfolding idx_def by auto
  fix p q assume pq: "p < q" and "q < length (nlargest_index n xs)"
  then have q: "q < length idx" by (simp add: idx_def)
  from q have qs: "q < length ?s" and qn: "q < n" by (simp_all add: idx)
  from pq qn have ip: "idx ! p = ?s ! p" and iq: "idx ! q = ?s ! q" by (simp_all add: idx)
  have "sorted (map ?f ?s)" by (rule sorted_sort_key)
  then have "map ?f ?s ! p \<le> map ?f ?s ! q"
    using pq qs by (intro sorted_nth_mono) simp_all
  then have le: "xs ! (?s ! q) \<le> xs ! (?s ! p)" using pq qs by simp
  have tie: "?s ! p < ?s ! q" if eq: "xs ! (?s ! p) = xs ! (?s ! q)"
  proof -
    from eq have "?f (?s ! p) = ?f (?s ! q)" by (simp only:)
    from sort_key_tie [OF pq qs this] show ?thesis .
  qed
  from le tie have "xs ! (idx ! q) \<le> xs ! (idx ! p)
      \<and> (xs ! (idx ! p) = xs ! (idx ! q) \<longrightarrow> idx ! p < idx ! q)"
    by (simp add: ip iq)
  then show "xs ! (nlargest_index n xs ! q) \<le> xs ! (nlargest_index n xs ! p)
           \<and> (xs ! (nlargest_index n xs ! p) = xs ! (nlargest_index n xs ! q)
                \<longrightarrow> nlargest_index n xs ! p < nlargest_index n xs ! q)"
    unfolding idx_def .
qed

lemma process_batch_Some:
  assumes "process_batch preprocess_data now conns = Some v"
  shows "\<exists>features results. conns \<noteq> [] \<and> preprocess_data conns = Some features
           \<and> make_results conns (calculate_anomaly_score features) = Inr results
           \<and> v = make_vis_data now (calculate_anomaly_score features) results"
  using assms
  by (auto simp: process_batch_def Let_def split: if_splits option.splits sum.splits)

subsection \<open>Labels and counts\<close>

lemma make_results_Inr:
  assumes "make_results conns scores = Inr results"
  shows "length scores = length conns" and "length results = length scores"
    and "map anomaly_score results = scores"
    and "map res_label results = map score_label scores"
    and "map source results = map (\<lambda>c. id_orig_h c @ '':'' @ str_int (id_orig_p c)) conns"
proof -
  from assms show len: "length scores = length conns"
    by (simp add: make_results_def split: if_splits)
  with assms have r: "results = map (\<lambda>(conn, x).
                  \<lparr>timestamp = ts conn,
                   source = id_orig_h conn @ '':'' @ str_int (id_orig_p conn),
                   destination = id_resp_h conn @ '':'' @ str_int (id_resp_p conn),
                   res_service = service conn,
                   anomaly_score = x,
                   res_label = score_label x\<rparr>) (zip conns scores)"
    by (simp add: make_results_def)
  show "length results = length scores" by (simp add: r len)
  have "map anomaly_score results = map snd (zip conns scores)"
    by (simp add: r case_prod_unfold)
  then show "map anomaly_score results = scores" by (simp add: len)
  have "map res_label results = map score_label (map snd (zip conns scores))"
    by (simp add: r case_prod_unfold)
  then show "map res_label results = map score_label scores" by (simp add: len)
  have "map source results
      = map (\<lambda>c. id_orig_h c @ '':'' @ str_int (id_orig_p c)) (map fst (zip conns scores))"
    by (simp add: r case_prod_unfold)
  then show "map source results = map (\<lambda>c. id_orig_h c @ '':'' @ str_int (id_orig_p c)) conns"
    by (simp add: len)
qed

lemma result_row_label:
  assumes "make_results conns scores = Inr results" and "r \<in> set results"
  shows "res_label r = score_label (anomaly_score r)"
proof -
  from assms(2) obtain i where i: "i < length results" and r: "r = results ! i"
    by (auto simp: in_set_conv_nth)
  from make_results_Inr(3,4) [OF assms(1)]
  have "map res_label results ! i = map score_label (map anomaly_score results) ! i" by simp
  with i show ?thesis by (simp add: r)
qed

lemma score_label_cases:
  "score_label x = ''Malicious'' \<longleftrightarrow> 0.8 \<le> x"
  "score_label x = ''Benign'' \<longleftrightarrow> x < 0.8"
  by (auto simp: score_label_def)

lemma three_records_sources:
  "map (\<lambda>c. id_orig_h c @ '':'' @ str_int (id_orig_p c)) three_records
     = [''93.184.216.34:3389'', ''93.184.216.34:443'', ''93.184.216.34:53'']"
proof -
  have "str_int 53 = ''53''" by (simp add: str_int_def str_nat.simps digit_char_def)
  then show ?thesis
    by (simp add: three_records_def cycle_eval public_rdp_def public_https_def public_dns_def)
qed

lemma length_three_records: "length three_records = 3"
  using arg_cong [OF three_records_sources, of length] by simp

text \<open>
  C7. Every row of the results frame has the label Malicious exactly when its anomaly
  score is at least 0.8 and the label Benign exactly when it is below 0.8; the scores of
  the rows are the scores of the batch; a score of exactly 0.8 is Malicious and 0.79999
  is Benign. Scores are real numbers here.
\<close>

theorem label_malicious_iff_threshold:
  assumes "make_results conns scores = Inr results"
  shows "(\<forall>r \<in> set results.
           (res_label r = ''Malicious'' \<longleftrightarrow> 0.8 \<le> anomaly_score r)
         \<and> (res_label r = ''Benign'' \<longleftrightarrow> anomaly_score r < 0.8))
       \<and> map anomaly_score results = scores
       \<and> score_label 0.8 = ''Malicious'' \<and> score_label 0.79999 = ''Benign''"
  using result_row_label [OF assms] make_results_Inr(3) [OF assms]
  by (simp add: score_label_cases)

text \<open>C7 on three records with the scores 0.8, 0.79999 and 1.\<close>

theorem label_malicious_iff_threshold_witness:
  "\<exists>results. make_results three_records [0.8, 0.79999, 1] = Inr results
     \<and> map anomaly_score results = [0.8, 0.79999, 1]
     \<and> map res_label results = [''Malicious'', ''Benign'', ''Malicious'']
     \<and> list_all (\<lambda>r. res_label r = ''Malicious'' \<longleftrightarrow> 0.8 \<le> anomaly_score r) results"
proof -
  obtain results where res: "make_results three_records [0.8, 0.79999, 1] = Inr results"
    by (simp add: make_results_def length_three_records)
  from label_malicious_iff_threshold [OF res]
  have a: "list_all (\<lambda>r. res_label r = ''Malicious'' \<longleftrightarrow> 0.8 \<le> anomaly_score r) results"
    and b: "map anomaly_score results = [0.8, 0.79999, 1]"
    by (simp_all add: list_all_iff)
  from make_results_Inr(4) [OF res]
  have c: "map res_label results = [''Malicious'', ''Benign'', ''Malicious'']"
    by (simp add: score_label_def)
  show ?thesis by (rule exI [of _ results]) (rule conjI res a b c)+
qed

text \<open>
  C10. Whenever a batch yields a payload, its summary satisfies
  \<open>malicious_count + benign_count = total_connections\<close>.
\<close>

theorem counts_sum_to_total:
  assumes "process_batch preprocess_data now conns = Some v"
  shows "malicious_count (vis_summary v) + benign_count (vis_summary v)
           = total_connections (vis_summary v)"
proof -
  from process_batch_Some [OF assms] obtain features results
    where res: "make_results conns (calculate_anomaly_score features) = Inr results"
      and v: "v = make_vis_data now (calculate_anomaly_score features) results"
    by blast
  have "filter (\<lambda>r. res_label r = ''Benign'') results
          = filter (\<lambda>r. \<not> res_label r = ''Malicious'') results"
  proof (rule filter_cong [OF refl])
    fix r assume "r \<in> set results"
    from result_row_label [OF res this]
    show "(res_label r = ''Benign'') = (\<not> res_label r = ''Malicious'')"
      by (simp add: score_label_def)
  qed
  then have "length (filter (\<lambda>r. res_label r = ''Malicious'') results)
           + length (filter (\<lambda>r. res_label r = ''Benign'') results) = length results"
    by (simp only: sum_length_filter_compl)
  with make_results_Inr(2) [OF res] show ?thesis
    by (simp add: v make_vis_data_def)
qed

lemma top_anomalies_make_vis_data:
  "top_anomalies (make_vis_data now scores results)
     = map (\<lambda>i. results ! i) (nlargest_index 10 (map anomaly_score results))"
  by (simp add: make_vis_data_def nlargest_def)

text \<open>
  C8. Whenever a batch yields a payload, \<open>top_anomalies\<close> has at most 10 rows; they
  are rows of the results frame at distinct positions \<open>idx\<close>, in descending order of
  anomaly score, and of two rows with equal scores the one that comes first in the
  batch comes first in the list. The order among equal scores is that of pandas'
  \<open>nlargest\<close> with \<open>keep='first'\<close> as \<open>nlargest_index\<close> models it.
\<close>

theorem top_anomalies_ranked:
  assumes "process_batch preprocess_data now conns = Some v"
  shows "length (top_anomalies v) \<le> 10
       \<and> (\<exists>results idx.
            (\<exists>features. preprocess_data conns = Some features
               \<and> make_results conns (calculate_anomaly_score features) = Inr results)
          \<and> top_anomalies v = map (\<lambda>i. results ! i) idx
          \<and> distinct idx \<and> (\<forall>i \<in> set idx. i < length results)
          \<and> (\<forall>p q. p < q \<and> q < length idx \<longrightarrow>
                anomaly_score (results ! (idx ! q)) \<le> anomaly_score (results ! (idx ! p))
              \<and> (anomaly_score (results ! (idx ! p)) = anomaly_score (results ! (idx ! q))
                   \<longrightarrow> idx ! p < idx ! q)))"
proof -
  from process_batch_Some [OF assms] obtain features results
    where pre: "preprocess_data conns = Some features"
      and res: "make_results conns (calculate_anomaly_score features) = Inr results"
      and v: "v = make_vis_data now (calculate_anomaly_score features) results"
    by blast
  define xs where "xs = map anomaly_score results"
  define idx where "idx = nlargest_index 10 xs"
  have top: "top_anomalies v = map (\<lambda>i. results ! i) idx"
    by (simp only: v top_anomalies_make_vis_data idx_def xs_def)
  have len: "length idx \<le> 10" unfolding idx_def by (rule nlargest_index_props(1))
  have dist: "distinct idx" unfolding idx_def by (rule nlargest_index_props(2))
  have "set idx \<subseteq> {..<length xs}" unfolding idx_def by (rule nlargest_index_props(3))
  then have bound: "\<And>i. i \<in> set idx \<Longrightarrow> i < length results"
    by (auto simp: xs_def)
  have order: "anomaly_score (results ! (idx ! q)) \<le> anomaly_score (results ! (idx ! p))
              \<and> (anomaly_score (results ! (idx ! p)) = anomaly_score (results ! (idx ! q))
                   \<longrightarrow> idx ! p < idx ! q)"
    if pq: "p < q" and q: "q < length idx" for p q
  proof -
    from pq q have "idx ! p \<in> set idx" and "idx ! q \<in> set idx" by simp_all
    then have bp: "idx ! p < length results" and bq: "idx ! q < length results"
      by (simp_all add: bound)
    then have xp: "xs ! (idx ! p) = anomaly_score (results ! (idx ! p))"
      and xq: "xs ! (idx ! q) = anomaly_score (results ! (idx ! q))"
      by (simp_all add: xs_def)
    from q have "q < length (nlargest_index 10 xs)" by (simp only: idx_def)
    then have "xs ! (idx ! q) \<le> xs ! (idx ! p) \<and> (xs ! (idx ! p) = xs ! (idx ! q) \<longrightarrow> idx ! p < idx ! q)"
      unfolding idx_def by (rule nlargest_index_props(4) [OF pq])
    then show ?thesis unfolding xp xq .
  qed
  have "length (top_anomalies v) \<le> 10" using len by (simp add: top)
  moreover have "\<exists>features. preprocess_data conns = Some features
               \<and> make_results conns (calculate_anomaly_score features) = Inr results"
    using pre res by (intro exI conjI)
  ultimately show ?thesis using top dist bound order
    by (intro conjI exI [of _ results] exI [of _ idx] ballI allI impI) (simp_all only:)
qed

lemma scores_tie:
  "calculate_anomaly_score tie_features = [420000000 / 420000001, 0, 420000000 / 420000001]"
  by (simp add: calculate_anomaly_score_def tie_features_def raw_score_examples)

lemma nlargest_index_tie:
  "nlargest_index 10 [420000000 / 420000001, 0, 420000000 / 420000001] = [0, 2, 1]"
  by (simp add: nlargest_index_def upt_rec)

lemma tie_batch:
  "\<exists>results. make_results three_records (calculate_anomaly_score tie_features) = Inr results
     \<and> process_batch (\<lambda>_. Some tie_features) ''t'' three_records
         = Some (make_vis_data ''t'' (calculate_anomaly_score tie_features) results)"
proof -
  have ne: "three_records \<noteq> []" using length_three_records by auto
  obtain results
    where res: "make_results three_records (calculate_anomaly_score tie_features) = Inr results"
    by (simp add: make_results_def length_three_records scores_tie)
  then have "process_batch (\<lambda>_. Some tie_features) ''t'' three_records
         = Some (make_vis_data ''t'' (calculate_anomaly_score tie_features) results)"
    using ne by (simp add: process_batch_def Let_def)
  with res show ?thesis by (intro exI conjI)
qed

text \<open>
  C8 on a batch of three records whose first and third scores are equal and larger than
  the second: the list is the first, the third and then the second record.
\<close>

theorem top_anomalies_ranked_witness:
  "\<exists>v. process_batch (\<lambda>_. Some tie_features) ''t'' three_records = Some v
     \<and> length (top_anomalies v) \<le> 10
     \<and> map source (top_anomalies v)
         = [''93.184.216.34:3389'', ''93.184.216.34:53'', ''93.184.216.34:443'']
     \<and> map anomaly_score (top_anomalies v) = [420000000 / 420000001, 420000000 / 420000001, 0]"
proof -
  from tie_batch obtain results
    where res: "make_results three_records (calculate_anomaly_score tie_features) = Inr results"
      and pb: "process_batch (\<lambda>_. Some tie_features) ''t'' three_records
         = Some (make_vis_data ''t'' (calculate_anomaly_score tie_features) results)"
    by blast
  let ?v = "make_vis_data ''t'' (calculate_anomaly_score tie_features) results"
  from top_anomalies_ranked [OF pb] have len: "length (top_anomalies ?v) \<le> 10" by (rule conjunct1)
  have sc: "map anomaly_score results = [420000000 / 420000001, 0, 420000000 / 420000001]"
    using make_results_Inr(3) [OF res] by (simp only: scores_tie)
  have src: "map source results = [''93.184.216.34:3389'', ''93.184.216.34:443'', ''93.184.216.34:53'']"
    using make_results_Inr(5) [OF res] by (simp only: three_records_sources)
  have l3: "length results = 3"
    using arg_cong [OF sc, of length] by simp
  from l3 obtain r0 r1 r2 where R: "results = [r0, r1, r2]"
    by (auto simp: numeral_3_eq_3 length_Suc_conv)
  have "top_anomalies ?v = map (\<lambda>i. results ! i) (nlargest_index 10 (map anomaly_score results))"
    by (rule top_anomalies_make_vis_data)
  also have "\<dots> = map (\<lambda>i. results ! i) [0, 2, 1]"
    by (simp only: sc nlargest_index_tie)
  also have "\<dots> = [r0, r2, r1]" by (simp add: R)
  finally have top: "top_anomalies ?v = [r0, r2, r1]" .
  from src have s: "source r0 = ''93.184.216.34:3389''"
    "source r2 = ''93.184.216.34:53''" "source r1 = ''93.184.216.34:443''"
    by (simp_all add: R)
  from sc have a: "anomaly_score r0 = 420000000 / 420000001"
    "anomaly_score r2 = 420000000 / 420000001" "anomaly_score r1 = 0"
    by (simp_all add: R)
  have m1: "map source (top_anomalies ?v)
         = [''93.184.216.34:3389'', ''93.184.216.34:53'', ''93.184.216.34:443'']"
    by (simp add: top s)
  have m2: "map anomaly_score (top_anomalies ?v) = [420000000 / 420000001, 420000000 / 420000001, 0]"
    by (simp add: top a)
  show ?thesis by (rule exI [of _ ?v]) (rule conjI pb len m1 m2)+
qed

text \<open>C10 on the same batch: two Malicious rows and one Benign row out of three.\<close>

theorem counts_sum_to_total_witness:
  "\<exists>v. process_batch (\<lambda>_. Some tie_features) ''t'' three_records = Some v
     \<and> malicious_count (vis_summary v) + benign_count (vis_summary v)
         = total_connections (vis_summary v)
     \<and> total_connections (vis_summary v) = 3
     \<and> malicious_count (vis_summary v) = 2"
proof -
  from tie_batch obtain results
    where res: "make_results three_records (calculate_anomaly_score tie_features) = Inr results"
      and pb: "process_batch (\<lambda>_. Some tie_features) ''t'' three_records
         = Some (make_vis_data ''t'' (calculate_anomaly_score tie_features) results)"
    by blast
  let ?v = "make_vis_data ''t'' (calculate_anomaly_score tie_features) results"
  note sum = counts_sum_to_total [OF pb]
  have total: "total_connections (vis_summary ?v) = 3"
    by (simp add: make_vis_data_def scores_tie)
  have lab: "map res_label results = [''Malicious'', ''Benign'', ''Malicious'']"
    using make_results_Inr(4) [OF res] by (simp add: scores_tie score_label_def)
  have "length (filter (\<lambda>r. res_label r = ''Malicious'') results)
          = length (filter (\<lambda>l. l = ''Malicious'') (map res_label results))"
    by (simp add: filter_map comp_def)
  then have mal: "malicious_count (vis_summary ?v) = 2"
    by (simp add: make_vis_data_def lab)
  show ?thesis by (rule exI [of _ ?v]) (rule conjI pb sum total mal)+
qed

subsection \<open>Broadcast\<close>

lemma send_all_props:
  assumes "distinct order"
  shows "fst (send_all failure order message net)
           = map (\<lambda>c. case failure c of Some e \<Rightarrow> Inl e | None \<Rightarrow> Inr ()) order
       \<and> (\<forall>c. snd (send_all failure order message net) c
           = (if c \<in> set order \<and> failure c = None then net c @ [message] else net c))"
  using assms
proof (induction order arbitrary: net)
  case Nil
  show ?case by simp
next
  case (Cons a order)
  from Cons.prems have d: "distinct order" and a: "a \<notin> set order" by simp_all
  let ?net1 = "snd (send failure a message net)"
  have unfold: "send_all failure (a # order) message net
      = (fst (send failure a message net) # fst (send_all failure order message ?net1),
         snd (send_all failure order message ?net1))"
    by (simp add: case_prod_unfold Let_def)
  from Cons.IH [OF d, of ?net1] a show ?case
    unfolding unfold by (auto simp: send_def split: option.split)
qed

text \<open>
  C9. Let \<open>order\<close> enumerate the subscriber set without repetition. \<open>broadcast\<close>
  returns normally, whatever sends fail: its result is the list of the outcomes of all
  sends, with the exception of each failing send at its position. Every subscriber
  whose own send does not fail has received the message once more, whether or not sends
  to other subscribers failed; nobody else's inbox changes.
\<close>

theorem broadcast_isolates_failures:
  assumes "set order = connected_clients srv" and "distinct order"
  shows "fst (broadcast failure order srv message net)
           = Inr (map (\<lambda>c. case failure c of Some e \<Rightarrow> Inl e | None \<Rightarrow> Inr ()) order)
       \<and> (\<forall>c. snd (broadcast failure order srv message net) c
              = (if c \<in> connected_clients srv \<and> failure c = None
                 then net c @ [message] else net c))"
proof (cases "connected_clients srv = {}")
  case True
  with assms(1) have "order = []" by simp
  with True show ?thesis by (simp add: broadcast_def)
next
  case False
  then have "broadcast failure order srv message net
      = (gather True (fst (send_all failure order message net)),
         snd (send_all failure order message net))"
    by (simp add: broadcast_def case_prod_unfold Let_def)
  then show ?thesis
    using send_all_props [OF assms(2), of failure message net]
    by (simp add: gather_def assms(1))
qed

text \<open>
  C9 with three subscribers of which the second fails: the first and the third receive
  the message, and the failure is the second outcome.
\<close>

theorem broadcast_isolates_failures_witness:
  "set [1, 2, 3 :: nat] = connected_clients \<lparr>connected_clients = {1, 2, 3}\<rparr>
   \<and> distinct [1, 2, 3 :: nat]
   \<and> fst (broadcast second_fails [1, 2, 3] \<lparr>connected_clients = {1, 2, 3}\<rparr> ''m'' (\<lambda>_. []))
       = Inr [Inr (), Inl ''ConnectionClosed'', Inr ()]
   \<and> snd (broadcast second_fails [1, 2, 3] \<lparr>connected_clients = {1, 2, 3}\<rparr> ''m'' (\<lambda>_. [])) 1 = [''m'']
   \<and> snd (broadcast second_fails [1, 2, 3] \<lparr>connected_clients = {1, 2, 3}\<rparr> ''m'' (\<lambda>_. [])) 2 = []
   \<and> snd (broadcast second_fails [1, 2, 3] \<lparr>connected_clients = {1, 2, 3}\<rparr> ''m'' (\<lambda>_. [])) 3 = [''m'']"
proof -
  have h1: "set [1, 2, 3 :: nat] = connected_clients \<lparr>connected_clients = {1, 2, 3}\<rparr>" by simp
  have h2: "distinct [1, 2, 3 :: nat]" by simp
  from broadcast_isolates_failures [OF h1 h2, of second_fails "''m''" "\<lambda>_. []"] h1 h2
  show ?thesis by (simp add: second_fails_def)
qed

end
